theory Spec2Isabelle
  imports Complex_Main
begin

section \<open>Strings and numbers of the source language\<close>

text \<open>
  Strings of \<^verbatim>\<open>lib/main.js\<close> are lists of characters; a \<^typ>\<open>char\<close> stands for one
  code unit in the range 0x00..0xFF, and \<open>length\<close> is the \<^verbatim>\<open>.length\<close> of the source.
  The regular expression \<^verbatim>\<open>\s\<close> and \<^verbatim>\<open>String.prototype.trim\<close> agree on what white space
  is; in this range it is TAB, LF, VT, FF, CR, SPACE and NBSP.
\<close>

definition isWhiteSpace :: "char \<Rightarrow> bool" where
  "isWhiteSpace c =
     (c = CHR 0x09 \<or> c = CHR 0x0A \<or> c = CHR 0x0B \<or> c = CHR 0x0C \<or> c = CHR 0x0D
      \<or> c = CHR 0x20 \<or> c = CHR 0xA0)"

text \<open>\<^verbatim>\<open>value.trim()\<close>: white space is removed at both ends.\<close>

definition trim :: "string \<Rightarrow> string" where
  "trim s = rev (dropWhile isWhiteSpace (rev (dropWhile isWhiteSpace s)))"

text \<open>
  \<^verbatim>\<open>value.slice(0, n)\<close> for an index \<open>n\<close> that is not negative: the first \<open>n\<close> code units,
  the whole string when \<open>n\<close> is beyond its end.
\<close>

definition slice0 :: "string \<Rightarrow> nat \<Rightarrow> string" where
  "slice0 s n = take n s"

text \<open>
  \<^verbatim>\<open>search.split(/\s+/)[0]\<close>: the text before the first run of white space, the whole
  string when there is none (and the empty string for the empty string).
\<close>

definition split_first :: "string \<Rightarrow> string" where
  "split_first s = takeWhile (\<lambda>c. \<not> isWhiteSpace c) s"

text \<open>\<^verbatim>\<open>search.match(/ /) == null\<close>: the string holds no SPACE (U+0020).\<close>

definition match_space_null :: "string \<Rightarrow> bool" where
  "match_space_null s = (CHR 0x20 \<notin> set s)"

text \<open>
  A Number of the source is a double: a finite value, which is a rational, or what a
  division by zero gives. The quotient of two Numbers is the exact quotient rounded to the
  nearest double, a tie going to the double whose last bit is zero.
\<close>

datatype jsnum = Finite rat | Infinity | NaN

text \<open>The nearest integer, a tie going to the even one.\<close>

definition round_half_even :: "rat \<Rightarrow> int" where
  "round_half_even q =
     (let f = \<lfloor>q\<rfloor>; d = q - of_int f in
      if d < 1 / 2 then f
      else if 1 / 2 < d then f + 1
      else if even f then f else f + 1)"

text \<open>The position of the leading bit of a positive integer.\<close>

fun floor_log2 :: "nat \<Rightarrow> nat" where
  "floor_log2 n = (if n < 2 then 0 else Suc (floor_log2 (n div 2)))"

declare floor_log2.simps [simp del]

text \<open>
  The power of two at or below a positive quotient \<open>a / b\<close>: the difference of the
  leading bits, or one less.
\<close>

definition binade :: "nat \<Rightarrow> nat \<Rightarrow> int" where
  "binade a b =
     (let k = int (floor_log2 a) - int (floor_log2 b) in
      if (2::rat) powi k \<le> of_nat a / of_nat b then k else k - 1)"

text \<open>
  A double has 53 significant bits, so the doubles around a quotient in the binade \<open>k\<close> are
  the multiples of two to the \<open>k - 52\<close>; below the normal range the spacing stays at two
  to the \<open>-1074\<close>.
\<close>

definition double_exponent :: "nat \<Rightarrow> nat \<Rightarrow> int" where
  "double_exponent a b = max (binade a b - 52) (- 1074)"

definition round_at :: "int \<Rightarrow> rat \<Rightarrow> rat" where
  "round_at e q = of_int (round_half_even (q / 2 powi e)) * 2 powi e"

definition round_to_double :: "nat \<Rightarrow> nat \<Rightarrow> rat" where
  "round_to_double a b = round_at (double_exponent a b) (of_nat a / of_nat b)"

text \<open>
  \<^verbatim>\<open>a / b\<close> for two Numbers that are integers, not negative and below two to the 53 (as
  \<^verbatim>\<open>MAX_WAIT_FOR_RESULTS\<close> and the \<^verbatim>\<open>.length\<close> of a string are), so that they are doubles
  as they stand: a division by zero gives \<^verbatim>\<open>NaN\<close> or \<^verbatim>\<open>Infinity\<close>, a rounded quotient
  beyond the largest double gives \<^verbatim>\<open>Infinity\<close>.
\<close>

definition js_divide :: "nat \<Rightarrow> nat \<Rightarrow> jsnum" where
  "js_divide a b =
     (if b = 0 then (if a = 0 then NaN else Infinity)
      else if a = 0 then Finite 0
      else if 2 ^ 1024 \<le> round_to_double a b then Infinity
      else Finite (round_to_double a b))"

text \<open>The values \<^verbatim>\<open>willHandle\<close> can return, and what an \<^verbatim>\<open>if\<close> makes of them.\<close>

datatype jsval = Object | Str string | Bool bool

fun truthy :: "jsval \<Rightarrow> bool" where
  "truthy Object = True"
| "truthy (Str s) = (s \<noteq> [])"
| "truthy (Bool b) = b"

section \<open>The services and objects the add-on talks to\<close>

text \<open>
  The platform services are parameters of the model: \<open>getEngineByAlias k\<close> says that
  \<^verbatim>\<open>Services.search.getEngineByAlias(k) != null\<close>; \<open>newURI s\<close> says that
  \<^verbatim>\<open>Services.io.newURI(s, null, null)\<close> returns (a URI object) rather than throws;
  \<open>getBaseDomainFromHost s\<close> is the string \<^verbatim>\<open>Services.eTLD.getBaseDomainFromHost(s)\<close>
  returns, \<open>None\<close> when it throws; \<open>STATUS_SEARCHING\<close> is the constant of that name of
  the autocomplete controller.
\<close>

record services =
  getEngineByAlias :: "string \<Rightarrow> bool"
  newURI :: "string \<Rightarrow> bool"
  getBaseDomainFromHost :: "string \<Rightarrow> string option"
  STATUS_SEARCHING :: nat

datatype key =
  DOM_VK_LEFT | DOM_VK_RIGHT | DOM_VK_HOME
| DOM_VK_UP | DOM_VK_DOWN | DOM_VK_PAGE_UP | DOM_VK_PAGE_DOWN | DOM_VK_TAB
| DOM_VK_RETURN | DOM_VK_OTHER nat

record key_event =
  keyCode :: key
  shiftKey :: bool
  ctrlKey :: bool
  metaKey :: bool

text \<open>The callbacks the source hands to \<^verbatim>\<open>defer\<close>, and the host commands it issues.\<close>

datatype task = RestoreCompletion | EnterTimeout string | HandleEnter

datatype host_call =
  preventDefault | onTextEntered | handleEnter bool | handleKeyNavigation key

text \<open>
  One record holds everything the source reads and writes: the module-level keyword
  cache with the lookups \<^verbatim>\<open>PlacesUtils.keywords.fetch\<close> has been asked for and has not
  answered yet; the location bar, its popup and its controller; the three variables of
  the per-window closure; the callbacks given to \<^verbatim>\<open>defer\<close> with their delay argument
  (\<open>None\<close> when the call gives none); and the host commands issued so far, in order.
  \<^verbatim>\<open>gURLBar.textValue\<close> is the location bar's accessor of the same text as
  \<^verbatim>\<open>gURLBar.value\<close>.
\<close>

record world =
  cachedKeywords :: "string \<rightharpoonup> bool"
  fetches :: "string list"
  gURLBar_value :: string
  gURLBar_selectionStart :: nat
  gURLBar_selectionEnd :: nat
  gURLBar_popupOpen :: bool
  popup_selectedIndex :: int
  popup_matchCount :: nat
  controller_matchCount :: nat
  controller_searchStatus :: nat
  selectNext :: bool
  origSearch :: string
  origValue :: string
  deferred :: "(task \<times> jsnum option) list"
  host_calls :: "host_call list"

definition MAX_WAIT_FOR_RESULTS :: nat where
  "MAX_WAIT_FOR_RESULTS = 350"

definition targetIndex :: int where
  "targetIndex = 1"

section \<open>The keyword cache\<close>

text \<open>
  \<^verbatim>\<open>isKeyword(keyword)\<close>: a cached answer is returned as it is; a search-engine alias is
  cached as \<open>true\<close>; otherwise a bookmark-keyword lookup is started and \<open>false\<close> is
  returned at once.
\<close>

definition isKeyword :: "services \<Rightarrow> string \<Rightarrow> world \<Rightarrow> bool \<times> world" where
  "isKeyword sv keyword w =
     (case cachedKeywords w keyword of
        Some b \<Rightarrow> (b, w)
      | None \<Rightarrow>
          if getEngineByAlias sv keyword
          then (True, w\<lparr>cachedKeywords := (cachedKeywords w)(keyword \<mapsto> True)\<rparr>)
          else (False, w\<lparr>fetches := fetches w @ [keyword]\<rparr>))"

text \<open>
  The \<^verbatim>\<open>then\<close> callback of one lookup, run when the lookup for \<open>keyword\<close> answers with
  \<open>result\<close> (the stored entry, or \<open>None\<close> for \<^verbatim>\<open>null\<close>): the cache entry becomes
  \<^verbatim>\<open>!!result\<close>. There is no such callback to run when no lookup for \<open>keyword\<close> is
  outstanding.
\<close>

definition fetch_then :: "string \<Rightarrow> string option \<Rightarrow> world \<Rightarrow> world option" where
  "fetch_then keyword result w =
     (if keyword \<in> set (fetches w)
      then Some (w\<lparr>cachedKeywords := (cachedKeywords w)(keyword \<mapsto> (result \<noteq> None)),
                    fetches := remove1 keyword (fetches w)\<rparr>)
      else None)"

text \<open>The \<^verbatim>\<open>then\<close> callback of the start-up query: every row's keyword is cached as \<open>true\<close>.\<close>

definition prefetch_then :: "string list \<Rightarrow> world \<Rightarrow> world" where
  "prefetch_then rows w =
     foldl (\<lambda>v keyword. v\<lparr>cachedKeywords := (cachedKeywords v)(keyword \<mapsto> True)\<rparr>) w rows"

section \<open>The per-window closure\<close>

text \<open>The variables the callback of \<^verbatim>\<open>watchWindows\<close> declares, with their first values.\<close>

definition watchWindows_init :: "world \<Rightarrow> world" where
  "watchWindows_init w = w\<lparr>selectNext := False, origSearch := [], origValue := []\<rparr>"

definition getTyped :: "world \<Rightarrow> string" where
  "getTyped w =
     trim (if gURLBar_selectionEnd w = length (gURLBar_value w)
           then slice0 (gURLBar_value w) (gURLBar_selectionStart w)
           else gURLBar_value w)"

definition willHandle :: "services \<Rightarrow> string \<Rightarrow> world \<Rightarrow> jsval \<times> world" where
  "willHandle sv search w =
     (let keyword_check =
            (case isKeyword sv (split_first search) w of
               (b, w') \<Rightarrow> (if b then (Bool True, w') else (Bool False, w')))
      in if match_space_null search then
           (if newURI sv search then (Object, w)
            else case getBaseDomainFromHost sv search of
                   Some d \<Rightarrow> (Str d, w)
                 | None \<Rightarrow> keyword_check)
         else keyword_check)"

text \<open>\<^verbatim>\<open>defer(callback, delay)\<close>: the callback is queued with the delay it was given.\<close>

definition defer_task :: "task \<Rightarrow> jsnum option \<Rightarrow> world \<Rightarrow> world" where
  "defer_task t d w = w\<lparr>deferred := deferred w @ [(t, d)]\<rparr>"

definition call_host :: "host_call \<Rightarrow> world \<Rightarrow> world" where
  "call_host c w = w\<lparr>host_calls := host_calls w @ [c]\<rparr>"

text \<open>
  The wrapper around the popup's \<^verbatim>\<open>_appendCurrentResult\<close>; \<open>orig\<close> is the wrapped
  routine of the host.
\<close>

definition appendCurrentResult :: "services \<Rightarrow> (world \<Rightarrow> world) \<Rightarrow> world \<Rightarrow> world" where
  "appendCurrentResult sv orig w0 =
     (let w = orig w0 in
      if popup_selectedIndex w \<ge> targetIndex then w
      else if popup_matchCount w = 0 then w
      else
        let currentSearch = getTyped w in
        case willHandle sv currentSearch w of
          (r, w1) \<Rightarrow>
            if truthy r then w1
            else
              let w2 = w1\<lparr>origSearch := currentSearch, origValue := gURLBar_value w1,
                           popup_selectedIndex := targetIndex\<rparr>
              in if selectNext w2
                 then defer_task HandleEnter None (w2\<lparr>selectNext := False\<rparr>)
                 else w2)"

text \<open>
  The two assignments of the deferred restore. Writing the text of a field to a new value
  puts the caret at its end; writing \<^verbatim>\<open>selectionStart\<close> keeps the selection's end unless it
  would come before the start, and both stay within the text.
\<close>

definition set_textValue :: "string \<Rightarrow> world \<Rightarrow> world" where
  "set_textValue v w =
     (if v = gURLBar_value w then w
      else w\<lparr>gURLBar_value := v, gURLBar_selectionStart := length v,
              gURLBar_selectionEnd := length v\<rparr>)"

definition set_selectionStart :: "nat \<Rightarrow> world \<Rightarrow> world" where
  "set_selectionStart n w =
     (let len = length (gURLBar_value w) in
      w\<lparr>gURLBar_selectionStart := min n len,
        gURLBar_selectionEnd := min (max (gURLBar_selectionEnd w) n) len\<rparr>)"

text \<open>The three callbacks given to \<^verbatim>\<open>defer\<close>.\<close>

definition restoreCompletion :: "world \<Rightarrow> world" where
  "restoreCompletion w =
     (if popup_selectedIndex w = - 1 \<and> gURLBar_popupOpen w
      then set_selectionStart (length (origSearch w)) (set_textValue (origValue w) w)
      else w)"

definition enterTimeout :: "string \<Rightarrow> world \<Rightarrow> world" where
  "enterTimeout enteredSearch w =
     (if enteredSearch = getTyped w \<and> controller_matchCount w = 0
      then call_host onTextEntered (w\<lparr>selectNext := False\<rparr>)
      else w)"

definition handleEnterDeferred :: "world \<Rightarrow> world" where
  "handleEnterDeferred w = call_host (handleEnter True) w"

fun run_task :: "task \<Rightarrow> world \<Rightarrow> world" where
  "run_task RestoreCompletion w = restoreCompletion w"
| "run_task (EnterTimeout enteredSearch) w = enterTimeout enteredSearch w"
| "run_task HandleEnter w = handleEnterDeferred w"

text \<open>The \<^verbatim>\<open>keydown\<close> listener of the location bar.\<close>

definition keydown_return :: "services \<Rightarrow> key_event \<Rightarrow> world \<Rightarrow> world" where
  "keydown_return sv event w =
     (if shiftKey event \<or> ctrlKey event \<or> metaKey event then w
      else if controller_matchCount w = 0 \<and> controller_searchStatus w \<le> STATUS_SEARCHING sv
      then
        let enteredSearch = getTyped w in
        case willHandle sv enteredSearch w of
          (r, w1) \<Rightarrow>
            if truthy r then w1
            else defer_task (EnterTimeout enteredSearch)
                   (Some (js_divide MAX_WAIT_FOR_RESULTS (length enteredSearch)))
                   ((call_host preventDefault w1)\<lparr>selectNext := True\<rparr>)
      else if popup_selectedIndex w = targetIndex
      then call_host (handleKeyNavigation DOM_VK_DOWN)
             (w\<lparr>popup_selectedIndex := targetIndex - 1\<rparr>)
      else w)"

fun keydown :: "services \<Rightarrow> key_event \<Rightarrow> key \<Rightarrow> world \<Rightarrow> world" where
  "keydown sv event DOM_VK_LEFT w = w\<lparr>popup_selectedIndex := - 1\<rparr>"
| "keydown sv event DOM_VK_RIGHT w = w\<lparr>popup_selectedIndex := - 1\<rparr>"
| "keydown sv event DOM_VK_HOME w = w\<lparr>popup_selectedIndex := - 1\<rparr>"
| "keydown sv event DOM_VK_UP w = defer_task RestoreCompletion None w"
| "keydown sv event DOM_VK_DOWN w = defer_task RestoreCompletion None w"
| "keydown sv event DOM_VK_PAGE_UP w = defer_task RestoreCompletion None w"
| "keydown sv event DOM_VK_PAGE_DOWN w = defer_task RestoreCompletion None w"
| "keydown sv event DOM_VK_TAB w = defer_task RestoreCompletion None w"
| "keydown sv event DOM_VK_RETURN w = keydown_return sv event w"
| "keydown sv event (DOM_VK_OTHER n) w = w"

definition listen_keydown :: "services \<Rightarrow> key_event \<Rightarrow> world \<Rightarrow> world" where
  "listen_keydown sv event w = keydown sv event (keyCode event) w"

section \<open>Runs of events\<close>

text \<open>A run of results-appended events, each with the host routine it wraps.\<close>

definition appendCurrentResults ::
  "services \<Rightarrow> (world \<Rightarrow> world) list \<Rightarrow> world \<Rightarrow> world" where
  "appendCurrentResults sv origs w = foldl (\<lambda>v orig. appendCurrentResult sv orig v) w origs"

text \<open>
  What can happen to the keyword cache: a call of \<^verbatim>\<open>isKeyword\<close>, the answer of an
  outstanding lookup (nothing happens when no lookup for the keyword is outstanding), and
  the answer of the start-up query.
\<close>

datatype cache_event =
  IsKeyword string | FetchThen string "string option" | PrefetchThen "string list"

fun cache_step :: "services \<Rightarrow> world \<Rightarrow> cache_event \<Rightarrow> world" where
  "cache_step sv w (IsKeyword keyword) = snd (isKeyword sv keyword w)"
| "cache_step sv w (FetchThen keyword result) =
     (case fetch_then keyword result w of Some w' \<Rightarrow> w' | None \<Rightarrow> w)"
| "cache_step sv w (PrefetchThen rows) = prefetch_then rows w"

definition cache_run :: "services \<Rightarrow> cache_event list \<Rightarrow> world \<Rightarrow> world" where
  "cache_run sv evs w = foldl (cache_step sv) w evs"

text \<open>The key codes of the first two groups of \<^verbatim>\<open>case\<close> labels of the listener.\<close>

definition horizontal_keys :: "key set" where
  "horizontal_keys = {DOM_VK_LEFT, DOM_VK_RIGHT, DOM_VK_HOME}"

definition vertical_keys :: "key set" where
  "vertical_keys = {DOM_VK_UP, DOM_VK_DOWN, DOM_VK_PAGE_UP, DOM_VK_PAGE_DOWN, DOM_VK_TAB}"

section \<open>The decision order in the words of the specification\<close>

text \<open>
  The specification's \<open>hostWillHandle\<close>: the first two steps are for a text with no white
  space, the third asks whether the first token is a known shortcut.
\<close>

definition hostWillHandle_spec :: "services \<Rightarrow> string \<Rightarrow> world \<Rightarrow> bool" where
  "hostWillHandle_spec sv rawText w =
     (if \<not> list_ex isWhiteSpace rawText \<and> newURI sv rawText then True
      else if \<not> list_ex isWhiteSpace rawText \<and> getBaseDomainFromHost sv rawText \<noteq> None
      then True
      else fst (isKeyword sv (split_first rawText) w))"

section \<open>An environment for the examples\<close>

text \<open>
  Stand-ins for the platform in the examples: one search alias, URIs recognised by their
  scheme, one domain-like text; the module just loaded and a window just attached, with an
  empty location bar and a closed popup; a location bar holding a text and a selection;
  a host routine that appends one result; a key pressed with no modifier.
\<close>

definition example_services :: services where
  "example_services =
     \<lparr>getEngineByAlias = (\<lambda>k. k = ''g''),
      newURI = (\<lambda>s. take 7 s = ''http://''),
      getBaseDomainFromHost =
        (\<lambda>s. if s = ''example.com/page'' then Some ''example.com'' else None),
      STATUS_SEARCHING = 2\<rparr>"

definition initial_world :: world where
  "initial_world =
     watchWindows_init
       \<lparr>cachedKeywords = Map.empty, fetches = [],
        gURLBar_value = [], gURLBar_selectionStart = 0, gURLBar_selectionEnd = 0,
        gURLBar_popupOpen = False,
        popup_selectedIndex = - 1, popup_matchCount = 0,
        controller_matchCount = 0, controller_searchStatus = 1,
        selectNext = False, origSearch = [], origValue = [],
        deferred = [], host_calls = []\<rparr>"

definition typed_world :: "string \<Rightarrow> nat \<Rightarrow> nat \<Rightarrow> world" where
  "typed_world v s e =
     initial_world\<lparr>gURLBar_value := v, gURLBar_selectionStart := s, gURLBar_selectionEnd := e\<rparr>"

definition host_append :: "world \<Rightarrow> world" where
  "host_append w = w\<lparr>popup_matchCount := popup_matchCount w + 1\<rparr>"

definition key_press :: "key \<Rightarrow> key_event" where
  "key_press k = \<lparr>keyCode = k, shiftKey = False, ctrlKey = False, metaKey = False\<rparr>"

lemmas example_defs =
  example_services_def initial_world_def typed_world_def host_append_def key_press_def
  watchWindows_init_def

lemmas string_defs =
  trim_def slice0_def split_first_def match_space_null_def isWhiteSpace_def

section \<open>Division of Numbers\<close>

lemma round_half_even_of_int: "round_half_even (of_int k) = k"
  by (simp add: round_half_even_def)

lemma round_half_even_bounds:
  "\<lfloor>q\<rfloor> \<le> round_half_even q" "round_half_even q \<le> \<lfloor>q\<rfloor> + 1"
  by (simp_all add: round_half_even_def Let_def)

lemma round_half_even_mono:
  assumes "x \<le> y"
  shows "round_half_even x \<le> round_half_even y"
proof (cases "\<lfloor>x\<rfloor> = \<lfloor>y\<rfloor>")
  case True
  then have "x - of_int \<lfloor>x\<rfloor> \<le> y - of_int \<lfloor>y\<rfloor>"
    using assms by simp
  then show ?thesis
    using True by (auto simp add: round_half_even_def Let_def)
next
  case False
  moreover have "\<lfloor>x\<rfloor> \<le> \<lfloor>y\<rfloor>"
    using assms by (rule floor_mono)
  ultimately have "\<lfloor>x\<rfloor> + 1 \<le> \<lfloor>y\<rfloor>"
    by simp
  then show ?thesis
    using round_half_even_bounds(2) [of x] round_half_even_bounds(1) [of y] by linarith
qed

lemma round_half_even_error: "\<bar>of_int (round_half_even q) - q\<bar> \<le> 1 / 2"
proof -
  have "of_int \<lfloor>q\<rfloor> \<le> q" "q < of_int \<lfloor>q\<rfloor> + 1"
    by linarith+
  then show ?thesis
    by (auto simp add: round_half_even_def Let_def)
qed

lemma floor_log2_bounds:
  "0 < n \<Longrightarrow> 2 ^ floor_log2 n \<le> n \<and> n < 2 ^ Suc (floor_log2 n)"
proof (induction n rule: floor_log2.induct)
  case (1 n)
  show ?case
  proof (cases "n < 2")
    case True
    then show ?thesis
      using "1.prems" by (simp add: floor_log2.simps)
  next
    case False
    define p :: nat where "p = 2 ^ floor_log2 (n div 2)"
    have "0 < n div 2"
      using False by simp
    then have "p \<le> n div 2 \<and> n div 2 < 2 * p"
      using "1.IH" False by (simp add: p_def)
    then have "2 * p \<le> n \<and> n < 2 * (2 * p)"
      by presburger
    moreover have "floor_log2 n = Suc (floor_log2 (n div 2))"
      using False by (subst floor_log2.simps) simp
    ultimately show ?thesis
      by (simp add: p_def)
  qed
qed

lemma binade_bounds:
  assumes "0 < a" and "0 < b"
  shows "2 powi binade a b \<le> (of_nat a / of_nat b :: rat)"
    and "(of_nat a / of_nat b :: rat) < 2 powi (binade a b + 1)"
proof -
  define la lb where "la = floor_log2 a" and "lb = floor_log2 b"
  define k where "k = int la - int lb"
  define q :: rat where "q = of_nat a / of_nat b"
  have a: "(2::rat) ^ la \<le> of_nat a" "(of_nat a :: rat) < 2 ^ Suc la"
    using floor_log2_bounds [OF assms(1)] unfolding la_def
    by (metis of_nat_le_iff of_nat_numeral of_nat_power, metis of_nat_less_iff of_nat_numeral of_nat_power)
  have b: "(2::rat) ^ lb \<le> of_nat b" "(of_nat b :: rat) < 2 ^ Suc lb"
    using floor_log2_bounds [OF assms(2)] unfolding lb_def
    by (metis of_nat_le_iff of_nat_numeral of_nat_power, metis of_nat_less_iff of_nat_numeral of_nat_power)
  have bpos: "(0::rat) < of_nat b"
    using assms(2) by simp
  have k: "(2::rat) powi k = 2 ^ la / 2 ^ lb"
    unfolding k_def by (simp add: power_int_diff)
  have low: "(2::rat) powi (k - 1) \<le> q"
  proof -
    have "(2::rat) powi (k - 1) = 2 ^ la / 2 ^ Suc lb"
      by (simp add: power_int_diff k)
    also have "\<dots> \<le> of_nat a / 2 ^ Suc lb"
      using a(1) by (simp add: divide_right_mono)
    also have "\<dots> \<le> of_nat a / of_nat b"
      using b(2) bpos by (intro divide_left_mono) (simp_all add: less_imp_le)
    finally show ?thesis by (simp add: q_def)
  qed
  have high: "q < (2::rat) powi (k + 1)"
  proof -
    have "q \<le> of_nat a / 2 ^ lb"
      unfolding q_def using b(1) bpos by (intro divide_left_mono) simp_all
    also have "\<dots> < 2 ^ Suc la / 2 ^ lb"
      using a(2) by (simp add: divide_strict_right_mono)
    also have "\<dots> = (2::rat) powi (k + 1)"
      by (simp add: power_int_add k)
    finally show ?thesis .
  qed
  have binade: "binade a b = (if (2::rat) powi k \<le> q then k else k - 1)"
    by (simp add: binade_def Let_def k_def la_def lb_def q_def)
  show "2 powi binade a b \<le> (of_nat a / of_nat b :: rat)"
    using low unfolding binade q_def [symmetric] by simp
  show "(of_nat a / of_nat b :: rat) < 2 powi (binade a b + 1)"
    using high unfolding binade q_def [symmetric] by (simp add: not_le)
qed

lemma binade_order:
  assumes "(2::rat) powi e1 \<le> x" and "x \<le> y" and "y < 2 powi (e2 + 1)"
  shows "e1 \<le> e2"
proof (rule ccontr)
  assume "\<not> e1 \<le> e2"
  then have "e2 + 1 \<le> e1" by simp
  then have "(2::rat) powi (e2 + 1) \<le> 2 powi e1"
    by (intro power_int_increasing) simp_all
  then show False using assms by linarith
qed

lemma round_at_mono:
  assumes "x \<le> y"
  shows "round_at e x \<le> round_at e y"
proof -
  have "x / 2 powi e \<le> y / 2 powi e"
    using assms by (simp add: divide_right_mono)
  then have "round_half_even (x / 2 powi e) \<le> round_half_even (y / 2 powi e)"
    by (rule round_half_even_mono)
  then have "(of_int (round_half_even (x / 2 powi e)) :: rat)
      \<le> of_int (round_half_even (y / 2 powi e))"
    by simp
  then show ?thesis
    unfolding round_at_def by (rule mult_right_mono) simp
qed

lemma round_at_lower:
  assumes "of_int k * 2 powi e \<le> x"
  shows "of_int k * 2 powi e \<le> round_at e x"
proof -
  have "round_at e (of_int k * 2 powi e) \<le> round_at e x"
    using assms by (rule round_at_mono)
  then show ?thesis
    by (simp add: round_at_def round_half_even_of_int)
qed

lemma round_at_upper:
  assumes "x \<le> of_int k * 2 powi e"
  shows "round_at e x \<le> of_int k * 2 powi e"
proof -
  have "round_at e x \<le> round_at e (of_int k * 2 powi e)"
    using assms by (rule round_at_mono)
  then show ?thesis
    by (simp add: round_at_def round_half_even_of_int)
qed


lemma double_exponent_bounds:
  assumes "0 < a" and "0 < b"
  shows "(of_nat a / of_nat b :: rat) \<le> 2 ^ 53 * 2 powi double_exponent a b"
    and "- 1074 < double_exponent a b
      \<Longrightarrow> 2 ^ 52 * 2 powi double_exponent a b \<le> (of_nat a / of_nat b :: rat)"
proof -
  have "binade a b + 1 \<le> double_exponent a b + 53"
    by (simp add: double_exponent_def)
  then have "(2::rat) powi (binade a b + 1) \<le> 2 powi (double_exponent a b + 53)"
    by (intro power_int_increasing) simp_all
  also have "\<dots> = 2 ^ 53 * 2 powi double_exponent a b"
    by (simp add: power_int_add)
  finally show "(of_nat a / of_nat b :: rat) \<le> 2 ^ 53 * 2 powi double_exponent a b"
    using binade_bounds(2) [OF assms] by linarith
  assume "- 1074 < double_exponent a b"
  then have "double_exponent a b = binade a b - 52"
    by (simp add: double_exponent_def max_def split: if_splits)
  then have "binade a b = double_exponent a b + 52"
    by simp
  then have "(2::rat) powi binade a b = 2 ^ 52 * 2 powi double_exponent a b"
    by (simp add: power_int_add)
  then show "2 ^ 52 * 2 powi double_exponent a b \<le> (of_nat a / of_nat b :: rat)"
    using binade_bounds(1) [OF assms] by simp
qed

lemma double_exponent_mono:
  assumes "0 < a" and "0 < b" and "0 < c" and "0 < d"
    and "(of_nat a / of_nat b :: rat) \<le> of_nat c / of_nat d"
  shows "double_exponent a b \<le> double_exponent c d"
proof -
  have "binade a b \<le> binade c d"
    using binade_bounds(1) [OF assms(1,2)] assms(5) binade_bounds(2) [OF assms(3,4)]
    by (rule binade_order)
  then show ?thesis
    by (simp add: double_exponent_def)
qed

lemma round_to_double_mono:
  assumes "0 < a" and "0 < b" and "0 < c" and "0 < d"
    and "(of_nat a / of_nat b :: rat) \<le> of_nat c / of_nat d"
  shows "round_to_double a b \<le> round_to_double c d"
proof (cases "double_exponent a b = double_exponent c d")
  case True
  then show ?thesis
    unfolding round_to_double_def using assms(5) by (simp add: round_at_mono)
next
  case False
  define ex ey where "ex = double_exponent a b" and "ey = double_exponent c d"
  have "ex \<le> ey"
    unfolding ex_def ey_def using assms by (rule double_exponent_mono)
  then have less: "ex + 1 \<le> ey"
    using False by (simp add: ex_def ey_def)
  have "- 1074 \<le> ex"
    by (simp add: ex_def double_exponent_def)
  then have normal: "- 1074 < ey"
    using less by simp
  have "round_to_double a b \<le> of_int (2 ^ 53) * 2 powi ex"
    unfolding round_to_double_def ex_def
    using double_exponent_bounds(1) [OF assms(1,2)] by (intro round_at_upper) simp
  also have "\<dots> = 2 ^ 52 * 2 powi (ex + 1)"
    by (simp add: power_int_add)
  also have "\<dots> \<le> 2 ^ 52 * 2 powi ey"
    using less by (intro mult_left_mono power_int_increasing) simp_all
  also have "\<dots> = of_int (2 ^ 52) * 2 powi ey"
    by simp
  also have "\<dots> \<le> round_to_double c d"
    unfolding round_to_double_def ey_def
    using double_exponent_bounds(2) [OF assms(3,4)] normal
    by (intro round_at_lower) (simp add: ey_def)
  finally show ?thesis .
qed

lemma round_at_exact:
  assumes "e \<le> 0"
  shows "round_at e (of_int k) = of_int k"
proof -
  define n where "n = nat (- e)"
  have e: "e = - int n"
    using assms by (simp add: n_def)
  have "(of_int k :: rat) / 2 powi e = of_int (k * 2 ^ n)"
    unfolding e by (simp add: power_int_minus divide_inverse)
  then have "round_half_even (of_int k / 2 powi e) = k * 2 ^ n"
    by (simp only: round_half_even_of_int)
  then show ?thesis
    unfolding round_at_def e by (simp add: power_int_minus)
qed

lemma round_to_double_exact:
  assumes "0 < b" and "0 < k" and "k < 2 ^ 53"
  shows "round_to_double (k * b) b = of_nat k"
proof -
  have q: "(of_nat (k * b) / of_nat b :: rat) = of_int (int k)"
    using assms(1) by simp
  have pos: "0 < k * b"
    using assms by simp
  have "(2::rat) powi binade (k * b) b \<le> of_nat k"
    using binade_bounds(1) [OF pos assms(1)] assms(1) by simp
  also have "\<dots> < 2 ^ 53"
    using assms(3) by (metis of_nat_less_iff of_nat_numeral of_nat_power)
  finally have "(2::rat) powi binade (k * b) b < 2 powi 53"
    by simp
  then have "binade (k * b) b < 53"
    by (rule power_int_le_imp_less_exp [rotated]) simp_all
  then have "double_exponent (k * b) b \<le> 0"
    by (simp add: double_exponent_def)
  then have "round_at (double_exponent (k * b) b) (of_int (int k)) = of_int (int k)"
    by (rule round_at_exact)
  then show ?thesis
    unfolding round_to_double_def q by simp
qed

lemma round_to_double_error:
  assumes "0 < a" and "0 < b" and "- 1074 < double_exponent a b"
  shows "\<bar>round_to_double a b - of_nat a / of_nat b\<bar> \<le> (of_nat a / of_nat b) / 2 ^ 53"
proof -
  define p :: rat where "p = 2 powi double_exponent a b"
  define q :: rat where "q = of_nat a / of_nat b"
  have p: "0 < p"
    by (simp add: p_def)
  have "round_to_double a b - q = (of_int (round_half_even (q / p)) - q / p) * p"
    using p by (simp add: round_to_double_def round_at_def p_def q_def algebra_simps)
  then have "\<bar>round_to_double a b - q\<bar> = \<bar>of_int (round_half_even (q / p)) - q / p\<bar> * p"
    using p by (simp add: abs_mult)
  also have "\<dots> \<le> 1 / 2 * p"
    using p round_half_even_error [of "q / p"] by (intro mult_right_mono) simp_all
  also have "\<dots> \<le> q / 2 ^ 53"
    using double_exponent_bounds(2) [OF assms] by (simp add: p_def q_def)
  finally show ?thesis
    by (simp add: q_def)
qed

lemma double_exponent_normal:
  assumes "0 < a" and "0 < b" and "b < 2 ^ 53"
  shows "- 1074 < double_exponent a b"
proof -
  have b: "(of_nat b :: rat) < 2 ^ 53"
    using assms(3) by (metis of_nat_less_iff of_nat_numeral of_nat_power)
  have "(2::rat) powi (- 53) = 1 / 2 ^ 53"
    by (simp add: power_int_minus_divide)
  also have "\<dots> \<le> 1 / of_nat b"
    using b assms(2) by (intro divide_left_mono) simp_all
  also have "\<dots> \<le> of_nat a / of_nat b"
    using assms(1) by (intro divide_right_mono) simp_all
  finally have "(2::rat) powi (- 53) \<le> of_nat a / of_nat b" .
  then have "- 53 \<le> binade a b"
    using binade_bounds(2) [OF assms(1,2)] by (rule binade_order [OF _ order_refl])
  then show ?thesis
    by (simp add: double_exponent_def)
qed

section \<open>The wrapper around the popup's append routine\<close>

lemma appendCurrentResult_noop:
  "targetIndex \<le> popup_selectedIndex (orig w) \<or> popup_matchCount (orig w) = 0
     \<Longrightarrow> appendCurrentResult sv orig w = orig w"
  by (auto simp add: appendCurrentResult_def Let_def)

lemma appendCurrentResult_selects:
  "popup_selectedIndex (orig w) < targetIndex \<Longrightarrow> popup_matchCount (orig w) \<noteq> 0
     \<Longrightarrow> \<not> truthy (fst (willHandle sv (getTyped (orig w)) (orig w)))
     \<Longrightarrow> popup_selectedIndex (appendCurrentResult sv orig w) = targetIndex"
  by (simp add: appendCurrentResult_def Let_def case_prod_beta defer_task_def)

lemma appendCurrentResults_stay:
  "\<forall>orig \<in> set origs. \<forall>v. popup_selectedIndex (orig v) = popup_selectedIndex v
     \<Longrightarrow> popup_selectedIndex w = targetIndex
     \<Longrightarrow> popup_selectedIndex (appendCurrentResults sv origs w) = targetIndex"
proof (induction origs arbitrary: w)
  case Nil
  then show ?case by (simp add: appendCurrentResults_def)
next
  case (Cons orig origs)
  have selected: "popup_selectedIndex (orig w) = targetIndex"
    using Cons.prems by simp
  then have "appendCurrentResult sv orig w = orig w"
    by (simp add: appendCurrentResult_noop)
  with selected have "popup_selectedIndex (appendCurrentResult sv orig w) = targetIndex"
    by simp
  moreover have "\<forall>orig \<in> set origs. \<forall>v. popup_selectedIndex (orig v) = popup_selectedIndex v"
    using Cons.prems by simp
  ultimately have "popup_selectedIndex
      (appendCurrentResults sv origs (appendCurrentResult sv orig w)) = targetIndex"
    using Cons.IH by blast
  then show ?case by (simp add: appendCurrentResults_def)
qed

text \<open>
  C1. A results-appended event whose host routine leaves nothing selected at or beyond
  \<open>targetIndex\<close> (such as \<open>-1\<close>) and a list that is not empty (such as one grown from 0 to 1
  entries), with a typed text that \<^verbatim>\<open>willHandle\<close> rejects, sets the selection index to
  \<open>targetIndex\<close>, which is 1. After it the index is \<open>targetIndex\<close> at every point of every
  run of further results-appended events whose host routines do not move the selection
  themselves: the change happens once. And any results-appended event that finds the index
  already at or beyond \<open>targetIndex\<close>, or the list empty, adds nothing to what the host
  routine did.
\<close>

theorem auto_select_once:
  assumes "popup_selectedIndex (orig w) < targetIndex"
    and "popup_matchCount (orig w) \<noteq> 0"
    and "\<not> truthy (fst (willHandle sv (getTyped (orig w)) (orig w)))"
    and "\<forall>later \<in> set origs. \<forall>v. popup_selectedIndex (later v) = popup_selectedIndex v"
  shows "popup_selectedIndex (appendCurrentResult sv orig w) = targetIndex
    \<and> targetIndex = 1
    \<and> (\<forall>n \<le> length origs.
          popup_selectedIndex
            (appendCurrentResults sv (take n origs) (appendCurrentResult sv orig w))
          = targetIndex)
    \<and> (\<forall>later v.
          targetIndex \<le> popup_selectedIndex (later v) \<or> popup_matchCount (later v) = 0
          \<longrightarrow> appendCurrentResult sv later v = later v)"
proof -
  have first: "popup_selectedIndex (appendCurrentResult sv orig w) = targetIndex"
    using assms(1,2,3) by (rule appendCurrentResult_selects)
  have rest: "popup_selectedIndex
      (appendCurrentResults sv (take n origs) (appendCurrentResult sv orig w)) = targetIndex"
    for n
  proof (rule appendCurrentResults_stay [OF _ first])
    show "\<forall>later \<in> set (take n origs).
        \<forall>v. popup_selectedIndex (later v) = popup_selectedIndex v"
      using assms(4) by (meson in_set_takeD)
  qed
  show ?thesis
    using first rest by (simp add: appendCurrentResult_noop targetIndex_def)
qed

text \<open>
  The text \<open>cats\<close> with the caret at its end, nothing selected, and the list growing from
  0 to 1 and then to 3 entries: the index is 1 after the first event and after the third.
\<close>

theorem auto_select_once_witness:
  "popup_selectedIndex (typed_world ''cats'' 4 4) = - 1
   \<and> popup_matchCount (typed_world ''cats'' 4 4) = 0
   \<and> popup_matchCount (host_append (typed_world ''cats'' 4 4)) = 1
   \<and> popup_selectedIndex
       (appendCurrentResult example_services host_append (typed_world ''cats'' 4 4)) = 1
   \<and> popup_selectedIndex
       (appendCurrentResults example_services [host_append, host_append]
          (appendCurrentResult example_services host_append (typed_world ''cats'' 4 4))) = 1"
proof -
  let ?w = "typed_world ''cats'' 4 4"
  have typed: "getTyped (host_append ?w) = ''cats''"
    by (simp add: example_defs getTyped_def string_defs)
  have before: "popup_selectedIndex ?w = - 1" "popup_matchCount ?w = 0"
    "popup_matchCount (host_append ?w) = 1"
    by (simp_all add: example_defs)
  have h1: "popup_selectedIndex (host_append ?w) < targetIndex"
    by (simp add: example_defs targetIndex_def)
  have h2: "popup_matchCount (host_append ?w) \<noteq> 0"
    by (simp add: example_defs)
  have h3: "\<not> truthy (fst (willHandle example_services (getTyped (host_append ?w))
      (host_append ?w)))"
    unfolding typed
    by (simp add: willHandle_def isKeyword_def string_defs example_defs)
  have h4: "\<forall>later \<in> set [host_append, host_append].
      \<forall>v. popup_selectedIndex (later v) = popup_selectedIndex v"
    by (simp add: host_append_def)
  note once = auto_select_once [where orig = host_append and w = "?w"
      and sv = example_services and origs = "[host_append, host_append]", OF h1 h2 h3 h4]
  have "popup_selectedIndex (appendCurrentResult example_services host_append ?w) = 1"
    using once by simp
  moreover have "popup_selectedIndex
      (appendCurrentResults example_services [host_append, host_append]
         (appendCurrentResult example_services host_append ?w)) = 1"
    using once by auto
  ultimately show ?thesis
    using before by blast
qed

section \<open>Classifying the typed text\<close>

lemma fst_isKeyword:
  "fst (isKeyword sv keyword w) =
     (case cachedKeywords w keyword of Some b \<Rightarrow> b | None \<Rightarrow> getEngineByAlias sv keyword)"
  by (simp add: isKeyword_def split: option.splits)

lemma willHandle_deferred: "deferred (snd (willHandle sv s w)) = deferred w"
  by (auto simp add: willHandle_def isKeyword_def Let_def split: option.splits)

text \<open>
  C3, as amended. \<^verbatim>\<open>willHandle\<close> follows this order: for a text with no SPACE character
  (U+0020; other white space does not count here) the answer is true if the text parses as
  a URI, else true if a base domain can be extracted from it; in every other case the
  answer is what \<^verbatim>\<open>isKeyword\<close> says of the text before the first white space. The service
  never hands out an empty base domain. So \<open>http://example.com\<close> is handled when it parses
  as a URI, \<open>example.com/page\<close> when it parses or has a base domain, \<open>weather\<close> (neither
  URI nor domain) exactly when it is a known keyword, and \<open>foo bar\<close> is not handled when
  \<open>foo\<close> is no known keyword.
\<close>

theorem willHandle_decision_order:
  assumes "\<forall>s d. getBaseDomainFromHost sv s = Some d \<longrightarrow> d \<noteq> []"
  shows "truthy (fst (willHandle sv search w)) =
      (if match_space_null search \<and> newURI sv search then True
       else if match_space_null search \<and> getBaseDomainFromHost sv search \<noteq> None then True
       else fst (isKeyword sv (split_first search) w))
    \<and> (newURI sv ''http://example.com''
         \<longrightarrow> truthy (fst (willHandle sv ''http://example.com'' w)))
    \<and> (newURI sv ''example.com/page'' \<or> getBaseDomainFromHost sv ''example.com/page'' \<noteq> None
         \<longrightarrow> truthy (fst (willHandle sv ''example.com/page'' w)))
    \<and> (\<not> newURI sv ''weather'' \<and> getBaseDomainFromHost sv ''weather'' = None
         \<longrightarrow> truthy (fst (willHandle sv ''weather'' w)) = fst (isKeyword sv ''weather'' w))
    \<and> (\<not> fst (isKeyword sv ''foo'' w) \<longrightarrow> \<not> truthy (fst (willHandle sv ''foo bar'' w)))"
proof -
  have order: "truthy (fst (willHandle sv s w)) =
      (if match_space_null s \<and> newURI sv s then True
       else if match_space_null s \<and> getBaseDomainFromHost sv s \<noteq> None then True
       else fst (isKeyword sv (split_first s) w))" for s
    using assms by (auto simp add: willHandle_def Let_def case_prod_beta split: option.splits)
  have tokens: "split_first ''weather'' = ''weather''" "split_first ''foo bar'' = ''foo''"
    by (simp_all add: split_first_def isWhiteSpace_def)
  have spaces: "match_space_null ''http://example.com''" "match_space_null ''example.com/page''"
    "match_space_null ''weather''" "\<not> match_space_null ''foo bar''"
    by (simp_all add: match_space_null_def)
  show ?thesis
    unfolding order [of "''http://example.com''"] order [of "''example.com/page''"]
      order [of "''weather''"] order [of "''foo bar''"] order [of search]
    using tokens spaces by simp
qed

text \<open>
  With the example services and an empty cache the four texts are classified as the
  specification lists them; \<open>weather\<close> is handled once the start-up query has cached it.
\<close>

theorem willHandle_decision_order_witness:
  "truthy (fst (willHandle example_services ''http://example.com'' initial_world))
   \<and> truthy (fst (willHandle example_services ''example.com/page'' initial_world))
   \<and> \<not> truthy (fst (willHandle example_services ''weather'' initial_world))
   \<and> truthy (fst (willHandle example_services ''weather''
        (prefetch_then [''weather''] initial_world)))
   \<and> \<not> truthy (fst (willHandle example_services ''foo bar'' initial_world))"
proof -
  have nonempty: "\<forall>s d. getBaseDomainFromHost example_services s = Some d \<longrightarrow> d \<noteq> []"
    by (simp add: example_services_def)
  have parses: "newURI example_services ''http://example.com''"
    "getBaseDomainFromHost example_services ''example.com/page'' \<noteq> None"
    "\<not> newURI example_services ''weather''"
    "getBaseDomainFromHost example_services ''weather'' = None"
    by (simp_all add: example_services_def)
  have known: "\<not> fst (isKeyword example_services ''weather'' initial_world)"
    "fst (isKeyword example_services ''weather'' (prefetch_then [''weather''] initial_world))"
    "\<not> fst (isKeyword example_services ''foo'' initial_world)"
    by (simp_all add: isKeyword_def prefetch_then_def example_defs)
  show ?thesis
    using willHandle_decision_order [OF nonempty, of "''x''" initial_world]
      willHandle_decision_order [OF nonempty, of "''x''"
        "prefetch_then [''weather''] initial_world"]
      parses known
    by simp
qed

text \<open>
  The decision order worded with "no whitespace" fails on a text that holds a TAB and no
  SPACE: \<^verbatim>\<open>willHandle\<close> still tries it as a URI, and the services accept this one, while
  the specification's order goes on to the keyword check of \<open>http://a\<close>, which is not a
  keyword.
\<close>

theorem willHandle_whitespace_counterexample:
  "truthy (fst (willHandle example_services (''http://a'' @ [CHR 0x09] @ ''b'') initial_world))
   \<noteq> hostWillHandle_spec example_services (''http://a'' @ [CHR 0x09] @ ''b'') initial_world"
  by (simp add: willHandle_def hostWillHandle_spec_def isKeyword_def string_defs example_defs)

section \<open>The typed part of the location bar\<close>

text \<open>
  C4, as amended. The typed text is the text before the start of the selection when the
  selection ends at the end of the field value, and the full field value otherwise, with
  white space trimmed at both ends in both cases. So for a bare caret (selection start and
  end the same) it is the trimmed full value wherever the caret stands.
\<close>

theorem getTyped_selection:
  "getTyped w =
     trim (if gURLBar_selectionEnd w = length (gURLBar_value w)
           then take (gURLBar_selectionStart w) (gURLBar_value w)
           else gURLBar_value w)
   \<and> (gURLBar_selectionEnd w \<noteq> length (gURLBar_value w)
        \<longrightarrow> getTyped w = trim (gURLBar_value w))
   \<and> (gURLBar_selectionStart w = gURLBar_selectionEnd w
        \<longrightarrow> getTyped w = trim (gURLBar_value w))"
  by (simp add: getTyped_def slice0_def)

text \<open>
  The value \<open>cats\<close>: with \<open>ts\<close> selected up to the end the typed text is \<open>ca\<close>; with a
  bare caret after \<open>ca\<close>, a bare caret at the end, or \<open>at\<close> selected, it is \<open>cats\<close>.
\<close>

theorem getTyped_selection_witness:
  "getTyped (typed_world ''cats'' 2 4) = ''ca''
   \<and> getTyped (typed_world ''cats'' 2 2) = ''cats''
   \<and> getTyped (typed_world ''cats'' 4 4) = ''cats''
   \<and> getTyped (typed_world ''cats'' 1 3) = ''cats''"
  using getTyped_selection [of "typed_world ''cats'' 2 4"]
    getTyped_selection [of "typed_world ''cats'' 2 2"]
    getTyped_selection [of "typed_world ''cats'' 4 4"]
    getTyped_selection [of "typed_world ''cats'' 1 3"]
  by (simp add: example_defs trim_def isWhiteSpace_def)

text \<open>
  "The text before the caret when the caret is not at the end" fails for the value
  \<open>cats\<close> with the caret after \<open>ca\<close>: the typed text is \<open>cats\<close>, not \<open>ca\<close>.
\<close>

theorem getTyped_caret_counterexample:
  "getTyped (typed_world ''cats'' 2 2)
     \<noteq> trim (if 2 \<noteq> length ''cats'' then take 2 ''cats'' else ''cats'')"
  by (simp add: example_defs getTyped_def string_defs)

section \<open>Lookups and the keyword cache\<close>

lemma prefetch_then_cached:
  "cachedKeywords (prefetch_then rows w) t =
     (if t \<in> set rows then Some True else cachedKeywords w t)"
  unfolding prefetch_then_def
  by (induction rows arbitrary: w) auto

lemma isKeyword_keeps_entry:
  "cachedKeywords w t = Some b \<Longrightarrow> cachedKeywords (snd (isKeyword sv keyword w)) t = Some b"
  by (auto simp add: isKeyword_def split: option.splits)

lemma isKeyword_run_keeps_entry:
  "cachedKeywords w t = Some b
     \<Longrightarrow> cachedKeywords (cache_run sv (map IsKeyword ks) w) t = Some b"
proof (induction ks arbitrary: w)
  case Nil
  then show ?case by (simp add: cache_run_def)
next
  case (Cons k ks)
  have "cachedKeywords (snd (isKeyword sv k w)) t = Some b"
    using Cons.prems by (rule isKeyword_keeps_entry)
  then have "cachedKeywords (cache_run sv (map IsKeyword ks) (snd (isKeyword sv k w))) t = Some b"
    by (rule Cons.IH)
  then show ?case by (simp add: cache_run_def)
qed

text \<open>
  C5, as amended. A call of \<^verbatim>\<open>isKeyword\<close> starts one backend lookup for its token when
  the cache holds no entry for the token and the token is no search-engine alias, and none
  otherwise. Lookups that are still outstanding play no part: the number of outstanding
  lookups for the token grows by one with every such call.
\<close>

theorem isKeyword_fetches:
  "fetches (snd (isKeyword sv keyword w)) =
     (if cachedKeywords w keyword = None \<and> \<not> getEngineByAlias sv keyword
      then fetches w @ [keyword] else fetches w)
   \<and> count_list (fetches (snd (isKeyword sv keyword w))) keyword =
     count_list (fetches w) keyword
       + (if cachedKeywords w keyword = None \<and> \<not> getEngineByAlias sv keyword then 1 else 0)"
  by (auto simp add: isKeyword_def split: option.splits)

text \<open>
  Three calls for \<open>foo\<close> with no answer in between leave three lookups outstanding; a call
  for the alias \<open>g\<close> starts none.
\<close>

theorem isKeyword_fetches_witness:
  "fetches (cache_run example_services
      [IsKeyword ''foo'', IsKeyword ''foo'', IsKeyword ''g'', IsKeyword ''foo''] initial_world)
     = [''foo'', ''foo'', ''foo'']"
  using isKeyword_fetches [of example_services "''foo''" initial_world]
  by (simp add: cache_run_def isKeyword_def example_defs)

text \<open>
  "At most one lookup outstanding for a token" fails after two calls for \<open>foo\<close> on an empty
  cache: the second call starts a second lookup while the first is outstanding.
\<close>

theorem isKeyword_duplicate_lookup_counterexample:
  "\<not> count_list
        (fetches (snd (isKeyword example_services ''foo''
           (snd (isKeyword example_services ''foo'' initial_world))))) ''foo'' \<le> 1"
  by (simp add: isKeyword_def example_defs)

text \<open>
  C6, as amended. Once the cache holds a value for a token, no call of \<^verbatim>\<open>isKeyword\<close>
  (its alias check included), for this or any other token, and no run of such calls,
  changes that value. The answer of an outstanding lookup for the token overwrites it with
  that answer, and the answer of the start-up query overwrites it with true when the token
  is among its rows; the answer of a lookup for another token leaves it as it is.
\<close>

theorem cached_value_changes:
  "cachedKeywords w t = Some b \<Longrightarrow>
     cachedKeywords (cache_step sv w (IsKeyword keyword)) t = Some b
   \<and> cachedKeywords (cache_run sv (map IsKeyword ks) w) t = Some b
   \<and> cachedKeywords (cache_step sv w (FetchThen keyword result)) t =
       (if keyword = t \<and> t \<in> set (fetches w) then Some (result \<noteq> None) else Some b)
   \<and> cachedKeywords (cache_step sv w (PrefetchThen rows)) t =
       (if t \<in> set rows then Some True else Some b)"
  by (auto simp add: isKeyword_keeps_entry isKeyword_run_keeps_entry fetch_then_def
      prefetch_then_cached)

text \<open>
  The alias \<open>g\<close>, cached as true by a first call, stays true through later calls.
\<close>

theorem cached_value_changes_witness:
  "cachedKeywords (cache_step example_services initial_world (IsKeyword ''g'')) ''g'' = Some True
   \<and> cachedKeywords
       (cache_run example_services (map IsKeyword [''g'', ''foo'', ''g''])
          (cache_step example_services initial_world (IsKeyword ''g''))) ''g'' = Some True"
proof -
  have cached: "cachedKeywords (cache_step example_services initial_world (IsKeyword ''g'')) ''g''
      = Some True"
    by (simp add: isKeyword_def example_defs)
  show ?thesis
    using cached_value_changes [OF cached, of example_services "''g''" "[''g'', ''foo'', ''g'']"]
      cached
    by blast
qed

text \<open>
  "A resolved value never changes" fails when two lookups for \<open>foo\<close> are outstanding and
  answer differently: the first answer caches true, the second replaces it by false.
\<close>

theorem cached_value_overwritten_counterexample:
  "cachedKeywords (cache_run example_services
      [IsKeyword ''foo'', IsKeyword ''foo'', FetchThen ''foo'' (Some ''http://foo/'')]
      initial_world) ''foo'' = Some True
   \<and> cachedKeywords (cache_run example_services
      [IsKeyword ''foo'', IsKeyword ''foo'', FetchThen ''foo'' (Some ''http://foo/''),
       FetchThen ''foo'' None]
      initial_world) ''foo'' = Some False"
  by (simp add: cache_run_def isKeyword_def fetch_then_def example_defs)

section \<open>Enter with no result yet\<close>

lemma keydown_return_waits:
  assumes "\<not> shiftKey event" and "\<not> ctrlKey event" and "\<not> metaKey event"
    and "controller_matchCount w = 0"
    and "controller_searchStatus w \<le> STATUS_SEARCHING sv"
    and "\<not> truthy (fst (willHandle sv (getTyped w) w))"
  shows "keydown_return sv event w =
      defer_task (EnterTimeout (getTyped w))
        (Some (js_divide MAX_WAIT_FOR_RESULTS (length (getTyped w))))
        ((call_host preventDefault (snd (willHandle sv (getTyped w) w)))\<lparr>selectNext := True\<rparr>)"
  using assms by (simp add: keydown_return_def Let_def case_prod_beta)

text \<open>
  C2. The callback Enter queues for the bounded wait carries the typed text computed at
  Enter. Whenever such a callback runs, it issues the forced commit
  (\<^verbatim>\<open>gURLBar.onTextEntered()\<close>) exactly when the typed text, computed again at that
  moment, equals the text it carries and the controller's match count is zero. In every
  other case, and so whenever a result has arrived, it changes nothing at all.
\<close>

theorem enterTimeout_commit_iff:
  "(host_calls (run_task (EnterTimeout enteredSearch) w') = host_calls w' @ [onTextEntered])
     = (enteredSearch = getTyped w' \<and> controller_matchCount w' = 0)
   \<and> (\<not> (enteredSearch = getTyped w' \<and> controller_matchCount w' = 0)
        \<longrightarrow> run_task (EnterTimeout enteredSearch) w' = w')
   \<and> (1 \<le> controller_matchCount w' \<longrightarrow> run_task (EnterTimeout enteredSearch) w' = w')
   \<and> (\<not> shiftKey event \<and> \<not> ctrlKey event \<and> \<not> metaKey event
        \<and> controller_matchCount w = 0 \<and> controller_searchStatus w \<le> STATUS_SEARCHING sv
        \<and> \<not> truthy (fst (willHandle sv (getTyped w) w))
        \<longrightarrow> fst (last (deferred (keydown_return sv event w))) = EnterTimeout (getTyped w))"
proof -
  have commits: "(host_calls (enterTimeout enteredSearch w') = host_calls w' @ [onTextEntered])
      = (enteredSearch = getTyped w' \<and> controller_matchCount w' = 0)"
    by (simp add: enterTimeout_def call_host_def)
  have stale: "enterTimeout enteredSearch w' = w'"
    if "\<not> (enteredSearch = getTyped w' \<and> controller_matchCount w' = 0)"
    using that by (auto simp add: enterTimeout_def)
  have arrived: "enterTimeout enteredSearch w' = w'" if "1 \<le> controller_matchCount w'"
    using that by (intro stale) simp
  have captured: "fst (last (deferred (keydown_return sv event w))) = EnterTimeout (getTyped w)"
    if "\<not> shiftKey event" "\<not> ctrlKey event" "\<not> metaKey event"
      "controller_matchCount w = 0" "controller_searchStatus w \<le> STATUS_SEARCHING sv"
      "\<not> truthy (fst (willHandle sv (getTyped w) w))"
    unfolding keydown_return_waits [OF that] by (simp add: defer_task_def)
  show ?thesis
    using commits stale arrived captured by simp
qed

text \<open>
  Enter pressed on \<open>cats\<close> with no result queues the callback for \<open>cats\<close>. With one
  result at fire time the callback changes nothing; with none and the same text it
  commits; with none and the text grown to \<open>catsup\<close> it changes nothing.
\<close>

theorem enterTimeout_commit_iff_witness:
  "fst (last (deferred (keydown_return example_services (key_press DOM_VK_RETURN)
      (typed_world ''cats'' 4 4)))) = EnterTimeout ''cats''
   \<and> run_task (EnterTimeout ''cats'') ((typed_world ''cats'' 4 4)\<lparr>controller_matchCount := 1\<rparr>)
     = (typed_world ''cats'' 4 4)\<lparr>controller_matchCount := 1\<rparr>
   \<and> host_calls (run_task (EnterTimeout ''cats'') (typed_world ''cats'' 4 4)) = [onTextEntered]
   \<and> run_task (EnterTimeout ''cats'') (typed_world ''catsup'' 6 6) = typed_world ''catsup'' 6 6"
proof -
  have typed: "getTyped (typed_world ''cats'' 4 4) = ''cats''"
    "getTyped ((typed_world ''cats'' 4 4)\<lparr>controller_matchCount := 1\<rparr>) = ''cats''"
    "getTyped (typed_world ''catsup'' 6 6) = ''catsup''"
    by (simp_all add: example_defs getTyped_def string_defs)
  have falsy: "\<not> truthy (fst (willHandle example_services ''cats'' (typed_world ''cats'' 4 4)))"
    by (simp add: willHandle_def isKeyword_def string_defs example_defs)
  have state: "controller_matchCount (typed_world v s e) = 0"
    "controller_searchStatus (typed_world v s e) \<le> STATUS_SEARCHING example_services"
    "host_calls (typed_world v s e) = []"
    "\<not> shiftKey (key_press k)" "\<not> ctrlKey (key_press k)" "\<not> metaKey (key_press k)"
    for v s e k
    by (simp_all add: example_defs)
  show ?thesis
    using enterTimeout_commit_iff [of "''cats''"
        "(typed_world ''cats'' 4 4)\<lparr>controller_matchCount := 1\<rparr>"
        "key_press DOM_VK_RETURN" "typed_world ''cats'' 4 4" example_services]
      enterTimeout_commit_iff [of "''cats''" "typed_world ''cats'' 4 4"
        "key_press DOM_VK_RETURN" "typed_world ''cats'' 4 4" example_services]
      enterTimeout_commit_iff [of "''cats''" "typed_world ''catsup'' 6 6"
        "key_press DOM_VK_RETURN" "typed_world ''cats'' 4 4" example_services]
      typed falsy state
    by simp
qed

lemma js_divide_MAX_WAIT:
  assumes "0 < n"
  shows "js_divide MAX_WAIT_FOR_RESULTS n = Finite (round_to_double 350 n)"
proof -
  have "(of_nat 350 / of_nat n :: rat) \<le> of_nat 350 / of_nat 1"
    using assms by (intro divide_left_mono) simp_all
  then have "round_to_double 350 n \<le> round_to_double 350 1"
    using assms by (intro round_to_double_mono) simp_all
  also have "round_to_double 350 1 = 350"
    using round_to_double_exact [of 1 350] by simp
  also have "(350::rat) < 2 ^ 1024"
    by simp
  finally show ?thesis
    using assms by (simp add: js_divide_def MAX_WAIT_FOR_RESULTS_def)
qed

lemma js_divide_MAX_WAIT_divisor:
  assumes "0 < n" and "n dvd 350"
  shows "js_divide MAX_WAIT_FOR_RESULTS n = Finite (of_nat (350 div n))"
proof -
  define k where "k = 350 div n"
  have k: "k * n = 350"
    using assms(2) by (simp add: k_def)
  then have "0 < k"
    by (cases "k = 0") simp_all
  moreover have "k \<le> 350"
    by (simp add: k_def)
  then have "k < 2 ^ 53"
    by simp
  ultimately have "round_to_double (k * n) n = of_nat k"
    using assms(1) by (intro round_to_double_exact)
  then have "round_to_double 350 n = of_nat k"
    by (simp only: k)
  then show ?thesis
    by (simp add: js_divide_MAX_WAIT [OF assms(1)] k_def)
qed

text \<open>
  C7. When Enter starts the bounded wait, the callback is queued with the delay
  \<^verbatim>\<open>MAX_WAIT_FOR_RESULTS / enteredSearch.length\<close>, where \<open>MAX_WAIT_FOR_RESULTS\<close> is 350.
  For a text that is not empty this quotient of Numbers is the double nearest to 350
  divided by the length: it is within one part in two to the 53 of the exact quotient,
  it is the exact quotient when the length divides 350, so 70 for a length of 5 and 50
  for a length of 7 (and the double 8209686820727467 over two to the 46 for a length of
  3), and it is never more for a longer text than for a shorter one.
\<close>

theorem enter_wait_delay:
  "(\<not> shiftKey event \<and> \<not> ctrlKey event \<and> \<not> metaKey event
     \<and> controller_matchCount w = 0 \<and> controller_searchStatus w \<le> STATUS_SEARCHING sv
     \<and> \<not> truthy (fst (willHandle sv (getTyped w) w))
     \<longrightarrow> deferred (keydown_return sv event w) =
           deferred w @ [(EnterTimeout (getTyped w),
              Some (js_divide MAX_WAIT_FOR_RESULTS (length (getTyped w))))])
   \<and> MAX_WAIT_FOR_RESULTS = 350
   \<and> (0 < n \<longrightarrow> js_divide MAX_WAIT_FOR_RESULTS n = Finite (round_to_double 350 n))
   \<and> (0 < n \<and> n < 2 ^ 53
        \<longrightarrow> \<bar>round_to_double 350 n - 350 / of_nat n\<bar> \<le> (350 / of_nat n) / 2 ^ 53)
   \<and> (0 < n \<and> n dvd 350 \<longrightarrow> js_divide MAX_WAIT_FOR_RESULTS n = Finite (of_nat (350 div n)))
   \<and> js_divide MAX_WAIT_FOR_RESULTS 5 = Finite 70
   \<and> js_divide MAX_WAIT_FOR_RESULTS 7 = Finite 50
   \<and> js_divide MAX_WAIT_FOR_RESULTS 3 = Finite (8209686820727467 / 2 ^ 46)
   \<and> (0 < m \<and> m \<le> n \<and> js_divide MAX_WAIT_FOR_RESULTS m = Finite a
        \<and> js_divide MAX_WAIT_FOR_RESULTS n = Finite b \<longrightarrow> b \<le> a)"
proof -
  have queued: "deferred (keydown_return sv event w) =
      deferred w @ [(EnterTimeout (getTyped w),
        Some (js_divide MAX_WAIT_FOR_RESULTS (length (getTyped w))))]"
    if "\<not> shiftKey event" "\<not> ctrlKey event" "\<not> metaKey event"
      "controller_matchCount w = 0" "controller_searchStatus w \<le> STATUS_SEARCHING sv"
      "\<not> truthy (fst (willHandle sv (getTyped w) w))"
    unfolding keydown_return_waits [OF that]
    by (simp add: defer_task_def call_host_def willHandle_deferred)
  have max_wait: "MAX_WAIT_FOR_RESULTS = 350"
    by (simp add: MAX_WAIT_FOR_RESULTS_def)
  have nearest: "\<bar>round_to_double 350 n - 350 / of_nat n\<bar> \<le> (350 / of_nat n) / 2 ^ 53"
    if "0 < n" "n < 2 ^ 53"
  proof -
    have "- 1074 < double_exponent 350 n"
      using that by (intro double_exponent_normal) simp_all
    then show ?thesis
      using round_to_double_error [of 350 n] that(1) by simp
  qed
  have examples: "js_divide MAX_WAIT_FOR_RESULTS 5 = Finite 70"
    "js_divide MAX_WAIT_FOR_RESULTS 7 = Finite 50"
    using js_divide_MAX_WAIT_divisor [of 5] js_divide_MAX_WAIT_divisor [of 7] by simp_all
  have inexact: "js_divide MAX_WAIT_FOR_RESULTS 3 = Finite (8209686820727467 / 2 ^ 46)"
    by code_simp
  have monotone: "b \<le> a"
    if "0 < m" "m \<le> n" "js_divide MAX_WAIT_FOR_RESULTS m = Finite a"
      "js_divide MAX_WAIT_FOR_RESULTS n = Finite b"
  proof -
    have n: "0 < n"
      using that(1,2) by simp
    have "(of_nat 350 / of_nat n :: rat) \<le> of_nat 350 / of_nat m"
      using that(1,2) by (intro divide_left_mono) simp_all
    then have "round_to_double 350 n \<le> round_to_double 350 m"
      using that(1) n by (intro round_to_double_mono) simp_all
    moreover have "a = round_to_double 350 m"
      using js_divide_MAX_WAIT [OF that(1)] that(3) by simp
    moreover have "b = round_to_double 350 n"
      using js_divide_MAX_WAIT [OF n] that(4) by simp
    ultimately show ?thesis by simp
  qed
  show ?thesis
    using queued max_wait js_divide_MAX_WAIT [of n] nearest js_divide_MAX_WAIT_divisor [of n]
      examples inexact monotone
    by blast
qed

text \<open>
  Enter on \<open>hello\<close> with no result while the search runs queues the callback with 70; on
  \<open>weather\<close>, with 50.
\<close>

theorem enter_wait_delay_witness:
  "deferred (keydown_return example_services (key_press DOM_VK_RETURN) (typed_world ''hello'' 5 5))
     = [(EnterTimeout ''hello'', Some (Finite 70))]
   \<and> deferred (keydown_return example_services (key_press DOM_VK_RETURN)
        (typed_world ''weather'' 7 7))
     = [(EnterTimeout ''weather'', Some (Finite 50))]"
proof -
  have typed: "getTyped (typed_world ''hello'' 5 5) = ''hello''"
    "getTyped (typed_world ''weather'' 7 7) = ''weather''"
    by (simp_all add: example_defs getTyped_def string_defs)
  have falsy: "\<not> truthy (fst (willHandle example_services ''hello'' (typed_world ''hello'' 5 5)))"
    "\<not> truthy (fst (willHandle example_services ''weather'' (typed_world ''weather'' 7 7)))"
    by (simp_all add: willHandle_def isKeyword_def string_defs example_defs)
  have state: "controller_matchCount (typed_world v s e) = 0"
    "controller_searchStatus (typed_world v s e) \<le> STATUS_SEARCHING example_services"
    "deferred (typed_world v s e) = []"
    "\<not> shiftKey (key_press k)" "\<not> ctrlKey (key_press k)" "\<not> metaKey (key_press k)"
    for v s e k
    by (simp_all add: example_defs)
  note hello = enter_wait_delay [of "key_press DOM_VK_RETURN" "typed_world ''hello'' 5 5"
      example_services 5 5 70 70]
  note weather = enter_wait_delay [of "key_press DOM_VK_RETURN" "typed_world ''weather'' 7 7"
      example_services 7 7 50 50]
  have lengths: "length ''hello'' = 5" "length ''weather'' = 7"
    by simp_all
  have "js_divide MAX_WAIT_FOR_RESULTS 5 = Finite 70"
    and "js_divide MAX_WAIT_FOR_RESULTS 7 = Finite 50"
    using hello by blast+
  then have delays: "js_divide MAX_WAIT_FOR_RESULTS (length ''hello'') = Finite 70"
    "js_divide MAX_WAIT_FOR_RESULTS (length ''weather'') = Finite 50"
    by (simp_all only: lengths)
  have "deferred (keydown_return example_services (key_press DOM_VK_RETURN)
      (typed_world ''hello'' 5 5))
      = deferred (typed_world ''hello'' 5 5) @ [(EnterTimeout (getTyped (typed_world ''hello'' 5 5)),
          Some (js_divide MAX_WAIT_FOR_RESULTS (length (getTyped (typed_world ''hello'' 5 5)))))]"
  proof (intro mp [OF hello [THEN conjunct1]] conjI state)
    show "\<not> truthy (fst (willHandle example_services (getTyped (typed_world ''hello'' 5 5))
        (typed_world ''hello'' 5 5)))"
      unfolding typed(1) by (rule falsy(1))
  qed
  moreover have "deferred (keydown_return example_services (key_press DOM_VK_RETURN)
      (typed_world ''weather'' 7 7))
      = deferred (typed_world ''weather'' 7 7)
        @ [(EnterTimeout (getTyped (typed_world ''weather'' 7 7)),
          Some (js_divide MAX_WAIT_FOR_RESULTS (length (getTyped (typed_world ''weather'' 7 7)))))]"
  proof (intro mp [OF weather [THEN conjunct1]] conjI state)
    show "\<not> truthy (fst (willHandle example_services (getTyped (typed_world ''weather'' 7 7))
        (typed_world ''weather'' 7 7)))"
      unfolding typed(2) by (rule falsy(2))
  qed
  ultimately show ?thesis
    unfolding typed delays state(3) by simp
qed

text \<open>
  With an empty typed text that \<^verbatim>\<open>willHandle\<close> rejects, the same branch suppresses the
  default action, sets \<open>selectNext\<close> and queues the callback with the quotient of 350 by
  zero, which is no finite number.
\<close>

lemma keydown_return_empty_text:
  assumes "\<not> shiftKey event" and "\<not> ctrlKey event" and "\<not> metaKey event"
    and "controller_matchCount w = 0"
    and "controller_searchStatus w \<le> STATUS_SEARCHING sv"
    and "getTyped w = []"
    and "\<not> truthy (fst (willHandle sv [] w))"
  shows "host_calls (keydown_return sv event w) = host_calls w @ [preventDefault]"
    and "selectNext (keydown_return sv event w)"
    and "deferred (keydown_return sv event w) = deferred w @ [(EnterTimeout [], Some Infinity)]"
proof -
  have falsy: "\<not> truthy (fst (willHandle sv (getTyped w) w))"
    using assms(6,7) by simp
  have calls: "host_calls (snd (willHandle sv s w)) = host_calls w" for s
    by (auto simp add: willHandle_def isKeyword_def Let_def split: option.splits)
  note waits = keydown_return_waits [OF assms(1-5) falsy]
  show "host_calls (keydown_return sv event w) = host_calls w @ [preventDefault]"
    unfolding waits by (simp add: defer_task_def call_host_def calls)
  show "selectNext (keydown_return sv event w)"
    unfolding waits by (simp add: defer_task_def)
  show "deferred (keydown_return sv event w) = deferred w @ [(EnterTimeout [], Some Infinity)]"
    unfolding waits
    by (simp add: defer_task_def call_host_def willHandle_deferred assms(6) js_divide_def
        MAX_WAIT_FOR_RESULTS_def)
qed

section \<open>Navigation keys and the deferred restore\<close>

lemma keydown_horizontal:
  "keyCode event \<in> horizontal_keys
     \<Longrightarrow> listen_keydown sv event w = w\<lparr>popup_selectedIndex := - 1\<rparr>"
  by (auto simp add: listen_keydown_def horizontal_keys_def)

lemma keydown_vertical:
  "keyCode event \<in> vertical_keys
     \<Longrightarrow> listen_keydown sv event w = w\<lparr>deferred := deferred w @ [(RestoreCompletion, None)]\<rparr>"
  by (auto simp add: listen_keydown_def vertical_keys_def defer_task_def)

lemma restoreCompletion_value:
  "popup_selectedIndex w = - 1 \<Longrightarrow> gURLBar_popupOpen w
     \<Longrightarrow> gURLBar_value (restoreCompletion w) = origValue w"
  by (simp add: restoreCompletion_def set_selectionStart_def set_textValue_def Let_def)

lemma restoreCompletion_selectionStart:
  "popup_selectedIndex w = - 1 \<Longrightarrow> gURLBar_popupOpen w
     \<Longrightarrow> gURLBar_selectionStart (restoreCompletion w)
           = min (length (origSearch w)) (length (origValue w))"
  by (simp add: restoreCompletion_def set_selectionStart_def set_textValue_def Let_def)

text \<open>
  C8. With the snapshot \<open>origSearch = ca\<close>, \<open>origValue = cats\<close> in place, a LEFT, RIGHT
  or HOME key sets the selection index to \<open>-1\<close> and does nothing else (no callback is
  queued). An UP, DOWN, PAGE UP, PAGE DOWN or TAB key after it queues the restore; when
  the restore runs in a state where the host has left the snapshot alone, the selection
  index is \<open>-1\<close> and the popup is open, the field value becomes \<open>cats\<close> and
  \<^verbatim>\<open>selectionStart\<close> becomes 2, the length of \<open>ca\<close>.
\<close>

theorem navigation_revert:
  assumes "origSearch w = ''ca''" and "origValue w = ''cats''"
    and "keyCode h \<in> horizontal_keys" and "keyCode v \<in> vertical_keys"
    and "w1 = listen_keydown sv h w" and "w2 = listen_keydown sv v w1"
    and "origSearch w3 = origSearch w2" and "origValue w3 = origValue w2"
    and "popup_selectedIndex w3 = - 1" and "gURLBar_popupOpen w3"
  shows "w1 = w\<lparr>popup_selectedIndex := - 1\<rparr>
    \<and> popup_selectedIndex w1 = - 1 \<and> deferred w1 = deferred w
    \<and> deferred w2 = deferred w1 @ [(RestoreCompletion, None)]
    \<and> gURLBar_value (run_task RestoreCompletion w3) = ''cats''
    \<and> gURLBar_selectionStart (run_task RestoreCompletion w3) = 2"
proof -
  have w1: "w1 = w\<lparr>popup_selectedIndex := - 1\<rparr>"
    using assms(3,5) by (simp add: keydown_horizontal)
  have w2: "w2 = w1\<lparr>deferred := deferred w1 @ [(RestoreCompletion, None)]\<rparr>"
    using assms(4,6) by (simp add: keydown_vertical)
  have snap: "origSearch w3 = ''ca''" "origValue w3 = ''cats''"
    using assms(1,2,7,8) w1 w2 by simp_all
  have "gURLBar_value (restoreCompletion w3) = ''cats''"
    using restoreCompletion_value [OF assms(9,10)] snap by simp
  moreover have "gURLBar_selectionStart (restoreCompletion w3) = 2"
    using restoreCompletion_selectionStart [OF assms(9,10)] snap by simp
  ultimately show ?thesis
    using w1 w2 by simp
qed

text \<open>
  The value \<open>cats\<close> with \<open>ts\<close> selected up to the end: the first result appended takes
  the snapshot \<open>ca\<close>, \<open>cats\<close>; LEFT clears the selection index; DOWN queues the restore;
  the host then shows \<open>ca\<close> with the popup open, and the restore puts \<open>cats\<close> back with
  \<^verbatim>\<open>selectionStart\<close> 2.
\<close>

theorem navigation_revert_witness:
  "origSearch (appendCurrentResult example_services host_append (typed_world ''cats'' 2 4)) = ''ca''
   \<and> origValue (appendCurrentResult example_services host_append (typed_world ''cats'' 2 4))
       = ''cats''
   \<and> popup_selectedIndex (listen_keydown example_services (key_press DOM_VK_LEFT)
        (appendCurrentResult example_services host_append (typed_world ''cats'' 2 4))) = - 1
   \<and> gURLBar_value (run_task RestoreCompletion
        ((listen_keydown example_services (key_press DOM_VK_DOWN)
           (listen_keydown example_services (key_press DOM_VK_LEFT)
             (appendCurrentResult example_services host_append (typed_world ''cats'' 2 4))))
         \<lparr>gURLBar_value := ''ca'', gURLBar_selectionStart := 1, gURLBar_selectionEnd := 1,
           gURLBar_popupOpen := True\<rparr>)) = ''cats''
   \<and> gURLBar_selectionStart (run_task RestoreCompletion
        ((listen_keydown example_services (key_press DOM_VK_DOWN)
           (listen_keydown example_services (key_press DOM_VK_LEFT)
             (appendCurrentResult example_services host_append (typed_world ''cats'' 2 4))))
         \<lparr>gURLBar_value := ''ca'', gURLBar_selectionStart := 1, gURLBar_selectionEnd := 1,
           gURLBar_popupOpen := True\<rparr>)) = 2"
proof -
  let ?w = "appendCurrentResult example_services host_append (typed_world ''cats'' 2 4)"
  let ?w1 = "listen_keydown example_services (key_press DOM_VK_LEFT) ?w"
  let ?w2 = "listen_keydown example_services (key_press DOM_VK_DOWN) ?w1"
  let ?w3 = "?w2\<lparr>gURLBar_value := ''ca'', gURLBar_selectionStart := 1,
    gURLBar_selectionEnd := 1, gURLBar_popupOpen := True\<rparr>"
  have typed: "getTyped (host_append (typed_world ''cats'' 2 4)) = ''ca''"
    by (simp add: example_defs getTyped_def string_defs)
  have falsy: "willHandle example_services ''ca'' (host_append (typed_world ''cats'' 2 4))
      = (Bool False, (host_append (typed_world ''cats'' 2 4))\<lparr>fetches := [''ca'']\<rparr>)"
    by (simp add: willHandle_def isKeyword_def string_defs example_defs)
  have snapshot: "origSearch ?w = ''ca''" "origValue ?w = ''cats''"
    by (simp_all add: appendCurrentResult_def Let_def typed falsy)
      (simp_all add: example_defs targetIndex_def)
  have keys: "keyCode (key_press DOM_VK_LEFT) \<in> horizontal_keys"
    "keyCode (key_press DOM_VK_DOWN) \<in> vertical_keys"
    by (simp_all add: key_press_def horizontal_keys_def vertical_keys_def)
  have w3: "origSearch ?w3 = origSearch ?w2" "origValue ?w3 = origValue ?w2"
    "popup_selectedIndex ?w3 = - 1" "gURLBar_popupOpen ?w3"
    by (simp_all add: listen_keydown_def key_press_def defer_task_def)
  note revert = navigation_revert [OF snapshot keys refl refl w3]
  have "popup_selectedIndex ?w1 = - 1"
    and "gURLBar_value (run_task RestoreCompletion ?w3) = ''cats''"
    and "gURLBar_selectionStart (run_task RestoreCompletion ?w3) = 2"
    using revert by blast+
  then show ?thesis
    using snapshot by blast
qed

text \<open>
  C10. The closure starts with \<open>origSearch\<close> and \<open>origValue\<close> empty. A vertical-navigation
  key pressed then queues the restore, and when the restore runs in a state where the host
  has left those two variables alone, nothing is selected and the popup is open, the field
  value becomes the empty string and \<^verbatim>\<open>selectionStart\<close> becomes 0.
\<close>

theorem restore_before_any_selection:
  assumes "w1 = watchWindows_init w0"
    and "keyCode v \<in> vertical_keys" and "w2 = listen_keydown sv v w1"
    and "origSearch w3 = origSearch w2" and "origValue w3 = origValue w2"
    and "popup_selectedIndex w3 = - 1" and "gURLBar_popupOpen w3"
  shows "origSearch w1 = [] \<and> origValue w1 = []
    \<and> deferred w2 = deferred w1 @ [(RestoreCompletion, None)]
    \<and> gURLBar_value (run_task RestoreCompletion w3) = []
    \<and> gURLBar_selectionStart (run_task RestoreCompletion w3) = 0"
proof -
  have init: "origSearch w1 = []" "origValue w1 = []"
    using assms(1) by (simp_all add: watchWindows_init_def)
  have w2: "w2 = w1\<lparr>deferred := deferred w1 @ [(RestoreCompletion, None)]\<rparr>"
    using assms(2,3) by (simp add: keydown_vertical)
  have snap: "origSearch w3 = []" "origValue w3 = []"
    using assms(4,5) init w2 by simp_all
  have "gURLBar_value (restoreCompletion w3) = []"
    using restoreCompletion_value [OF assms(6,7)] snap by simp
  moreover have "gURLBar_selectionStart (restoreCompletion w3) = 0"
    using restoreCompletion_selectionStart [OF assms(6,7)] snap by simp
  ultimately show ?thesis
    using init w2 by simp
qed

text \<open>
  The user has typed \<open>cats\<close> in a window just attached, no result has been selected, and
  presses DOWN while the popup is open with nothing selected: the restore empties the
  field.
\<close>

theorem restore_before_any_selection_witness:
  "gURLBar_value (run_task RestoreCompletion
      ((listen_keydown example_services (key_press DOM_VK_DOWN)
          (watchWindows_init (typed_world ''cats'' 4 4)))\<lparr>gURLBar_popupOpen := True\<rparr>)) = []
   \<and> gURLBar_selectionStart (run_task RestoreCompletion
      ((listen_keydown example_services (key_press DOM_VK_DOWN)
          (watchWindows_init (typed_world ''cats'' 4 4)))\<lparr>gURLBar_popupOpen := True\<rparr>)) = 0"
proof -
  let ?w2 = "listen_keydown example_services (key_press DOM_VK_DOWN)
    (watchWindows_init (typed_world ''cats'' 4 4))"
  let ?w3 = "?w2\<lparr>gURLBar_popupOpen := True\<rparr>"
  have key: "keyCode (key_press DOM_VK_DOWN) \<in> vertical_keys"
    by (simp add: key_press_def vertical_keys_def)
  have w3: "origSearch ?w3 = origSearch ?w2" "origValue ?w3 = origValue ?w2"
    "popup_selectedIndex ?w3 = - 1" "gURLBar_popupOpen ?w3"
    by (simp_all add: listen_keydown_def defer_task_def example_defs)
  show ?thesis
    using restore_before_any_selection [OF refl key refl w3] by blast
qed

end
